theory Spec2Isabelle
  imports Complex_Main "HOL-Library.Sublist"
begin

section \<open>The face-image notebook (PCA.ipynb): catalog, pixel loader, flattening\<close>

text \<open>
  The notebook is a linear script around three helpers: \<open>create_facedb\<close> (a catalog of
  image files), \<open>read_metadata\<close> and \<open>get_pixel_data\<close> (grayscale conversion, reshape to
  256 x 256, subsampling), followed by a reshape of the image stack into a feature matrix.
  A numpy array of rank 2 is a list of rows, a stack of images a list of such grids.
  Every Python exception is a value of \<open>error\<close>; a function that may raise returns
  \<open>error + 'a\<close> with \<open>Inl\<close> for the exception.
\<close>

subsection \<open>Exceptions\<close>

datatype error =
    AttributeError                \<comment> \<open>pandas: "Can only use .str accessor with string values!"\<close>
  | KeyError                      \<comment> \<open>a label that is not in a pandas index, a missing dict key\<close>
  | TypeError                     \<comment> \<open>subscripting a JSON value that is not an object\<close>
  | NameError                     \<comment> \<open>a global name that is bound nowhere\<close>
  | FileNotFoundError             \<comment> \<open>open() or Image.open() on a path that does not exist\<close>
  | JSONDecodeError               \<comment> \<open>json.load() on a file that is not JSON\<close>
  | UnidentifiedImageError        \<comment> \<open>PIL cannot decode the file\<close>
  | ValueError_shapes_not_aligned \<comment> \<open>np.dot: "shapes ... not aligned"\<close>
  | ValueError_reshape            \<comment> \<open>reshape: "cannot reshape array of size ... into shape ..."\<close>
  | ValueError_slice_step_zero    \<comment> \<open>"slice step cannot be zero"\<close>

text \<open>What the file system holds at a path: nothing, a file the reader cannot parse, or content.\<close>

datatype 'a stored = Missing | Corrupt | Content 'a

subsection \<open>Slicing with a step and reshaping\<close>

text \<open>
  \<open>xs[::s]\<close> for a positive step keeps the elements at indices 0, s, 2s, ...
\<close>

fun take_every :: "nat \<Rightarrow> 'a list \<Rightarrow> 'a list" where
  "take_every s [] = []"
| "take_every s (x # xs) = x # take_every s (drop (s - 1) xs)"

text \<open>
  \<open>grid[::step, ::step]\<close> for any integer step: the step applied to the rows and, in each
  kept row, to the columns. A zero step raises ValueError, a negative step walks backwards
  from the last row and the last column.
\<close>

definition slice_step2 :: "int \<Rightarrow> 'a list list \<Rightarrow> error + 'a list list" where
  "slice_step2 step grid =
     (if step = 0 then Inl ValueError_slice_step_zero
      else if 0 < step then Inr (map (take_every (nat step)) (take_every (nat step) grid))
      else Inr (map (\<lambda>row. take_every (nat (- step)) (rev row))
                  (take_every (nat (- step)) (rev grid))))"

text \<open>
  \<open>a.reshape(h, w)\<close> of a flat buffer (C order): row \<open>i\<close> is the slice \<open>[i*w, (i+1)*w)\<close>; the
  sizes must agree.
\<close>

definition reshape2 :: "nat \<Rightarrow> nat \<Rightarrow> 'a list \<Rightarrow> error + 'a list list" where
  "reshape2 h w xs =
     (if length xs \<noteq> h * w then Inl ValueError_reshape
      else Inr (map (\<lambda>i. take w (drop (i * w) xs)) [0..<h]))"

text \<open>The notebook's global \<open>downsample = 5\<close>.\<close>

definition downsample :: int where
  "downsample = 5"


subsection \<open>The catalog: \<open>create_facedb\<close>\<close>

text \<open>
  A catalog row: the four columns \<open>fullpath\<close>, \<open>filename\<close>, \<open>faceid\<close>, \<open>jsonfile\<close> of the
  DataFrame. \<open>faceid\<close> is \<open>None\<close> where pandas stores NaN (the pattern did not match).
\<close>

record facedb_row =
  fullpath :: string
  filename :: string
  faceid :: "string option"
  jsonfile :: string

text \<open>
  \<open>s.rpartition(sep)\<close> for a one-character separator: the parts before and after the last
  occurrence of the separator, and \<open>('', '', s)\<close> when there is none.
\<close>

definition rpartition :: "char \<Rightarrow> string \<Rightarrow> string \<times> string \<times> string" where
  "rpartition sep s =
     (if sep \<in> set s
      then (rev (tl (dropWhile (\<lambda>c. c \<noteq> sep) (rev s))), [sep],
            rev (takeWhile (\<lambda>c. c \<noteq> sep) (rev s)))
      else ([], [], s))"

text \<open>
  The regular expression's \<open>\d\<close>. On the one-byte characters of \<open>string\<close> these are the
  digits 0 to 9 (Python's \<open>\d\<close> also accepts the decimal digits of other scripts, which are
  code points beyond one byte).
\<close>

definition is_digit :: "char \<Rightarrow> bool" where
  "is_digit c = (c \<in> set ''0123456789'')"

text \<open>
  The pattern \<open>_(\d{7})[_.]\<close> matches at the start of \<open>s\<close>: an underscore, seven digits,
  then an underscore or a dot.
\<close>

definition id_match_here :: "string \<Rightarrow> bool" where
  "id_match_here s =
     (9 \<le> length s \<and> s ! 0 = CHR ''_'' \<and> list_all is_digit (take 7 (drop 1 s))
      \<and> (s ! 8 = CHR ''_'' \<or> s ! 8 = CHR ''.''))"

text \<open>
  \<open>Series.str.extract(r"_(\d{7})[_.]")\<close> on one string: the group of the leftmost match
  (\<open>re.search\<close>), NaN when the pattern matches nowhere.
\<close>

fun str_extract_faceid :: "string \<Rightarrow> string option" where
  "str_extract_faceid [] = None"
| "str_extract_faceid (c # cs) =
     (if id_match_here (c # cs) then Some (take 7 cs) else str_extract_faceid cs)"

text \<open>
  What a match of the pattern is, independently of the search: \<open>id_at s k d\<close> says that the
  pattern matches \<open>s\<close> at offset \<open>k\<close> with the seven digits \<open>d\<close> as its group.
\<close>

definition id_at :: "string \<Rightarrow> nat \<Rightarrow> string \<Rightarrow> bool" where
  "id_at s k d \<longleftrightarrow>
     (\<exists>pre sep post. s = pre @ ''_'' @ d @ sep # post \<and> length pre = k \<and> length d = 7
        \<and> list_all is_digit d \<and> (sep = CHR ''_'' \<or> sep = CHR ''.''))"

text \<open>
  \<open>s.replace(old, new)\<close> (\<open>regex=False\<close>): every occurrence of \<open>old\<close>, found from left to
  right without overlaps, becomes \<open>new\<close>; an empty \<open>old\<close> inserts \<open>new\<close> around every character.
\<close>

function str_replace :: "string \<Rightarrow> string \<Rightarrow> string \<Rightarrow> string" where
  "str_replace old new [] = (if old = [] then new else [])"
| "str_replace old new (c # cs) =
     (if old = [] then new @ c # str_replace old new cs
      else if prefix old (c # cs) then new @ str_replace old new (drop (length old) (c # cs))
      else c # str_replace old new cs)"
  by pat_completeness auto
termination
  by (relation "measure (\<lambda>(old, new, s). length s)") auto

text \<open>
  The dtype pandas gives a column assigned from a Python list of file names: \<open>object\<close> for a
  list of strings, and \<open>float64\<close> (numpy's default) for the empty list. The \<open>.str\<close> accessor
  exists on string-valued columns only; on a \<open>float64\<close> column it raises AttributeError.
\<close>

datatype dtype = Float64 | Object

definition column_dtype :: "string list \<Rightarrow> dtype" where
  "column_dtype values = (if values = [] then Float64 else Object)"

definition str_accessor :: "string list \<Rightarrow> error + string list" where
  "str_accessor column = (if column_dtype column = Object then Inr column else Inl AttributeError)"

definition jsonfile_of :: "string \<Rightarrow> string" where
  "jsonfile_of p =
     str_replace ''.jpg'' ''.json''
       (str_replace ''/generated.photos/'' ''/generated.photos_metadata/'' p)"

definition catalog_row :: "string \<Rightarrow> facedb_row" where
  "catalog_row p =
     (let name = snd (snd (rpartition CHR ''/'' p))
      in \<lparr>fullpath = p, filename = name, faceid = str_extract_faceid name,
          jsonfile = jsonfile_of p\<rparr>)"

text \<open>
  \<open>create_facedb(dir)\<close>. \<open>glob_glob\<close> is \<open>glob.glob\<close> on the file system of the run: the paths
  that match a pattern, in the order of enumeration. The first use of \<open>.str\<close> is on the
  \<open>fullpath\<close> column, so an empty result of \<open>glob.glob\<close> raises there.
\<close>

definition create_facedb :: "(string \<Rightarrow> string list) \<Rightarrow> string \<Rightarrow> error + facedb_row list" where
  "create_facedb glob_glob dir =
     (let pattern = dir @ ''/*.jpg'';
          face_photos = glob_glob pattern
      in case str_accessor face_photos of
           Inl e \<Rightarrow> Inl e
         | Inr paths \<Rightarrow> Inr (map catalog_row paths))"

definition default_dir :: string where
  "default_dir = ''/srv/data/faces/generated.photos''"

text \<open>
  \<open>facedb[column][id]\<close>: the catalog has the default index 0, ..., n - 1, and an integer key
  is a label of that index (a negative or too large key raises KeyError). The source's
  variable \<open>id\<close> is written \<open>ident\<close> here.
\<close>

definition lookup_label :: "facedb_row list \<Rightarrow> int \<Rightarrow> facedb_row option" where
  "lookup_label facedb ident =
     (if 0 \<le> ident \<and> ident < int (length facedb) then Some (facedb ! nat ident) else None)"

subsection \<open>\<open>read_metadata\<close>\<close>

datatype json =
    JNull
  | JBool bool
  | JNumber string
  | JString string
  | JArray "json list"
  | JObject "(string \<times> json) list"

text \<open>\<open>data[key]\<close> for a string key: only an object has string keys; a repeated key keeps its last value.\<close>

definition subscript :: "json \<Rightarrow> string \<Rightarrow> error + json" where
  "subscript data key =
     (case data of
        JObject members \<Rightarrow>
          (case map_of (rev members) key of None \<Rightarrow> Inl KeyError | Some v \<Rightarrow> Inr v)
      | _ \<Rightarrow> Inl TypeError)"

text \<open>
  The names the notebook binds at module level: its imports (first code cell), its function
  definitions and its assignments, cell by cell. A name used in a function body that is
  neither local nor in this list (nor a Python builtin) raises NameError when evaluated.
\<close>

definition notebook_globals :: "string list" where
  "notebook_globals =
     [''np'', ''plt'', ''Axes3D'', ''pd'', ''sns'', ''PCA'', ''KMeans'', ''glob'', ''json'', ''Image'',
      ''create_facedb'', ''read_metadata'', ''facedb'',
      ''downsample'', ''get_pixel_data'', ''num_images'', ''image_list'', ''image_shape'',
      ''image_flattened'',
      ''image_selection'', ''n_components'', ''pca'', ''transformed'', ''reconstruction'',
      ''fig'', ''axs'', ''idx'', ''ax'',
      ''component_list'', ''eigen_face'',
      ''weights'', ''new_image'',
      ''x'', ''y'',
      ''cluster_predictions'',
      ''axs_all'', ''cluster_idx'', ''cluster_positions'', ''image_idx'']"

text \<open>
  \<open>read_metadata(facedb, id)\<close>. \<open>files\<close> is the file system as \<open>json.load\<close> sees it, \<open>pformat\<close>
  stands for \<open>pprint.pformat\<close>. In the call \<open>pprint.pformat(data["faceAttributes"])\<close> Python
  evaluates the callee \<open>pprint.pformat\<close> before the argument.
\<close>

definition read_metadata ::
  "(json \<Rightarrow> string) \<Rightarrow> (string \<Rightarrow> json stored) \<Rightarrow> facedb_row list \<Rightarrow> int \<Rightarrow> error + string" where
  "read_metadata pformat files facedb ident =
     (case lookup_label facedb ident of
        None \<Rightarrow> Inl KeyError
      | Some r \<Rightarrow>
          (case files (jsonfile r) of
             Missing \<Rightarrow> Inl FileNotFoundError
           | Corrupt \<Rightarrow> Inl JSONDecodeError
           | Content data \<Rightarrow>
               (if ''pprint'' \<notin> set notebook_globals then Inl NameError
                else (case subscript data ''faceAttributes'' of
                        Inl e \<Rightarrow> Inl e
                      | Inr attributes \<Rightarrow> Inr (pformat attributes)))))"

subsection \<open>The pixel loader: \<open>get_pixel_data\<close>\<close>

text \<open>
  \<open>np.array(im.getdata())\<close>: a one-dimensional array of numbers for a single-band image, an
  array of one tuple of band values per pixel otherwise, in row-major order.
\<close>

datatype imdata = Flat "int list" | Pixels "int list list"

definition pixel_count :: "imdata \<Rightarrow> nat" where
  "pixel_count im_data = (case im_data of Flat xs \<Rightarrow> length xs | Pixels ps \<Rightarrow> length ps)"

text \<open>
  \<open>np.dot(im_data, rgb_weights).reshape(256, 256)\<close>. The weights are a vector of length 3,
  so the product needs an array of shape (N, 3), or of shape (3,), whose product is a single
  number that cannot be reshaped. An empty array has shape (0,). \<open>dot\<close> is the weighted sum
  of one pixel's three values as float64 arithmetic computes it; the model is generic in it.
\<close>

definition gray_image :: "(int list \<Rightarrow> 'v) \<Rightarrow> imdata \<Rightarrow> error + 'v list list" where
  "gray_image dot im_data =
     (case im_data of
        Flat xs \<Rightarrow>
          (if length xs = 3 then Inl ValueError_reshape else Inl ValueError_shapes_not_aligned)
      | Pixels ps \<Rightarrow>
          (if ps = [] \<or> \<not> list_all (\<lambda>p. length p = 3) ps then Inl ValueError_shapes_not_aligned
           else reshape2 256 256 (map dot ps)))"

text \<open>One pass of the loop body: look the path up, open and decode, convert, subsample.\<close>

definition get_pixel_data_step ::
  "(int list \<Rightarrow> 'v) \<Rightarrow> facedb_row list \<Rightarrow> (string \<Rightarrow> imdata stored) \<Rightarrow> int \<Rightarrow> error + 'v list list" where
  "get_pixel_data_step dot facedb images ident =
     (case lookup_label facedb ident of
        None \<Rightarrow> Inl KeyError
      | Some r \<Rightarrow>
          (case images (fullpath r) of
             Missing \<Rightarrow> Inl FileNotFoundError
           | Corrupt \<Rightarrow> Inl UnidentifiedImageError
           | Content im_data \<Rightarrow>
               (case gray_image dot im_data of
                  Inl e \<Rightarrow> Inl e
                | Inr gray \<Rightarrow> slice_step2 downsample gray)))"

text \<open>The loop over \<open>face_ids\<close> with its accumulator \<open>data_list\<close>; the first exception ends it.\<close>

fun get_pixel_data_loop ::
  "(int list \<Rightarrow> 'v) \<Rightarrow> facedb_row list \<Rightarrow> (string \<Rightarrow> imdata stored) \<Rightarrow> int list
     \<Rightarrow> 'v list list list \<Rightarrow> error + 'v list list list" where
  "get_pixel_data_loop dot facedb images [] data_list = Inr data_list"
| "get_pixel_data_loop dot facedb images (ident # face_ids) data_list =
     (case get_pixel_data_step dot facedb images ident of
        Inl e \<Rightarrow> Inl e
      | Inr g \<Rightarrow> get_pixel_data_loop dot facedb images face_ids (data_list @ [g]))"

definition get_pixel_data ::
  "(int list \<Rightarrow> 'v) \<Rightarrow> facedb_row list \<Rightarrow> (string \<Rightarrow> imdata stored) \<Rightarrow> int list
     \<Rightarrow> error + 'v list list list" where
  "get_pixel_data dot facedb images face_ids = get_pixel_data_loop dot facedb images face_ids []"

text \<open>
  An identifier whose image loads: a row of the catalog whose file decodes to 256 * 256
  pixels of three bands each.
\<close>

definition valid_face_id :: "facedb_row list \<Rightarrow> (string \<Rightarrow> imdata stored) \<Rightarrow> int \<Rightarrow> bool" where
  "valid_face_id facedb images ident =
     (case lookup_label facedb ident of
        None \<Rightarrow> False
      | Some r \<Rightarrow>
          (case images (fullpath r) of
             Content (Pixels ps) \<Rightarrow> length ps = 256 * 256 \<and> list_all (\<lambda>p. length p = 3) ps
           | _ \<Rightarrow> False))"

text \<open>
  The weighted sum in exact rational arithmetic, with the weights of the notebook
  (\<open>rgb_weights = [0.2989, 0.5870, 0.1140]\<close>): what the float64 product approximates.
\<close>

definition rgb_dot_exact :: "int list \<Rightarrow> rat" where
  "rgb_dot_exact p =
     (case p of
        [r, g, b] \<Rightarrow> 2989 / 10000 * of_int r + 5870 / 10000 * of_int g + 1140 / 10000 * of_int b
      | _ \<Rightarrow> 0)"

subsection \<open>Flattening the stack\<close>

text \<open>
  \<open>image_list.reshape(num_images, -1)\<close>: the buffer of the stack cut into \<open>num_images\<close> rows.
  numpy infers the row length as size / num_images; it raises ValueError when num_images
  is zero (the row length is undetermined), negative (a second unknown dimension), or does
  not divide the size.
\<close>

definition image_flattened :: "int \<Rightarrow> 'a list list list \<Rightarrow> error + 'a list list" where
  "image_flattened num_images image_list =
     (let buffer = concat (map concat image_list);
          n = nat num_images
      in if num_images \<le> 0 \<or> length buffer mod n \<noteq> 0 then Inl ValueError_reshape
         else Inr (map (\<lambda>i. take (length buffer div n) (drop (i * (length buffer div n)) buffer))
                     [0..<n]))"

section \<open>Properties\<close>

subsection \<open>Slicing with a step\<close>

lemma div_step:
  assumes s: "0 < s" and le: "s \<le> n"
  shows "(Suc n + s - 1) div s = Suc ((n - (s - 1) + s - 1) div s)"
proof -
  have a: "n - (s - 1) + s - 1 = n" using s le by simp
  have "(Suc n + s - 1) div s = (n + s) div s" by simp
  also have "\<dots> = Suc (n div s)" using s by simp
  finally show ?thesis unfolding a .
qed

lemma length_take_every:
  "0 < s \<Longrightarrow> length (take_every s xs) = (length xs + s - 1) div s"
proof (induction s xs rule: take_every.induct)
  case (1 s)
  then show ?case by simp
next
  case (2 s x xs)
  show ?case
  proof (cases "length xs < s")
    case True
    with 2 show ?thesis by simp
  next
    case False
    then have "s \<le> length xs" by simp
    from div_step [OF 2(2) this] 2 show ?thesis by simp
  qed
qed

lemma nth_take_every:
  "0 < s \<Longrightarrow> i < length (take_every s xs) \<Longrightarrow> take_every s xs ! i = xs ! (i * s)"
proof (induction s xs arbitrary: i rule: take_every.induct)
  case (1 s)
  then show ?case by simp
next
  case (2 s x xs)
  show ?case
  proof (cases i)
    case 0
    then show ?thesis by simp
  next
    case (Suc j)
    with 2 have j: "j < length (take_every s (drop (s - 1) xs))" by simp
    have nonempty: "drop (s - 1) xs \<noteq> []" using j by auto
    have "take_every s (drop (s - 1) xs) ! j = drop (s - 1) xs ! (j * s)"
      using 2 j by simp
    also have "\<dots> = xs ! (s - 1 + j * s)"
      using nonempty by simp
    also have "s - 1 + j * s = Suc j * s - 1" using 2(2) by simp
    finally show ?thesis using Suc 2(2) by (simp add: nth_Cons')
  qed
qed

lemma take_every_index_in_range:
  assumes "0 < s" and "i < (length xs + s - 1) div s"
  shows "i * s < length xs"
proof -
  from assms(2) have "Suc i \<le> (length xs + s - 1) div s" by simp
  then have "Suc i * s \<le> ((length xs + s - 1) div s) * s" by (rule mult_le_mono1)
  also have "\<dots> \<le> length xs + s - 1" by simp
  finally show ?thesis using assms(1) by simp
qed

text \<open>The rounded-up quotient \<open>ceil (m / s)\<close>, in natural-number arithmetic.\<close>

lemma ceil_div:
  assumes s: "0 < s"
  shows "nat \<lceil>real m / real s\<rceil> = (m + s - 1) div s"
proof -
  define q where "q = (m + s - 1) div s"
  have up: "q * s \<le> m + s - 1"
    unfolding q_def by simp
  have "m + s - 1 < Suc q * s"
    unfolding q_def using s dividend_less_div_times [of s "m + s - 1"] by simp
  with s have lo: "m \<le> q * s" by simp
  have "real m \<le> real (q * s)" using lo by (simp only: of_nat_le_iff)
  then have le: "real m / real s \<le> real_of_int (int q)"
    using s by (simp add: field_simps)
  from up s have "q * s < m + s" by simp
  then have "real (q * s) < real (m + s)" by (simp only: of_nat_less_iff)
  then have gt: "real_of_int (int q) - 1 < real m / real s"
    using s by (simp add: field_simps)
  have "\<lceil>real m / real s\<rceil> = int q"
    using gt le by (rule ceiling_unique)
  then show ?thesis by (simp add: q_def)
qed

lemma slice_step2_pos:
  "0 < s \<Longrightarrow> slice_step2 (int s) grid = Inr (map (take_every s) (take_every s grid))"
  by (simp add: slice_step2_def)

lemma slice_step2_shape:
  assumes s: "0 < s" and rows: "length grid = h" and cols: "\<forall>row\<in>set grid. length row = w"
  shows "length (map (take_every s) (take_every s grid)) = (h + s - 1) div s"
    and "\<forall>row\<in>set (map (take_every s) (take_every s grid)). length row = (w + s - 1) div s"
proof -
  show "length (map (take_every s) (take_every s grid)) = (h + s - 1) div s"
    using s rows by (simp add: length_take_every)
  have sub: "set (take_every s grid) \<subseteq> set grid"
  proof
    fix r assume "r \<in> set (take_every s grid)"
    then obtain i where i: "i < length (take_every s grid)" and r: "r = take_every s grid ! i"
      by (auto simp: in_set_conv_nth)
    from i s have "i * s < length grid"
      by (simp add: length_take_every take_every_index_in_range)
    with r i s show "r \<in> set grid" by (simp add: nth_take_every)
  qed
  show "\<forall>row\<in>set (map (take_every s) (take_every s grid)). length row = (w + s - 1) div s"
    using sub cols s by (auto simp: length_take_every)
qed

lemma slice_step2_entry:
  assumes s: "0 < s" and rows: "length grid = h" and cols: "\<forall>row\<in>set grid. length row = w"
    and i: "i < (h + s - 1) div s" and j: "j < (w + s - 1) div s"
  shows "map (take_every s) (take_every s grid) ! i ! j = grid ! (i * s) ! (j * s)"
proof -
  have li: "i < length (take_every s grid)" using s rows i by (simp add: length_take_every)
  have ir: "i * s < length grid"
    using take_every_index_in_range [of s i grid] s rows i by simp
  then have "length (grid ! (i * s)) = w" using cols by simp
  then have lj: "j < length (take_every s (grid ! (i * s)))"
    using s j by (simp add: length_take_every)
  have "map (take_every s) (take_every s grid) ! i = take_every s (grid ! (i * s))"
    using li s by (simp add: nth_take_every)
  then show ?thesis using lj s by (simp add: nth_take_every)
qed

text \<open>
  Claim C3. Subsampling an \<open>m x m\<close> grid with a positive stride \<open>s\<close> (\<open>grid[::s, ::s]\<close>)
  succeeds and yields a grid with \<open>ceil (m / s)\<close> rows, each of \<open>ceil (m / s)\<close> entries,
  whose entry \<open>(i, j)\<close> is the original entry \<open>(i * s, j * s)\<close>; for \<open>m = 256\<close> and the
  notebook's stride \<open>downsample = 5\<close> that is 52 x 52. The 10 x 10 scenario with stride 2
  is the instance evaluated right after.
\<close>

theorem downsample_grid_shape_and_entries:
  fixes grid :: "'a list list"
  assumes "0 < s" and "length grid = m" and "\<forall>row\<in>set grid. length row = m"
  shows "(\<exists>g. slice_step2 (int s) grid = Inr g
            \<and> length g = nat \<lceil>real m / real s\<rceil>
            \<and> (\<forall>row\<in>set g. length row = nat \<lceil>real m / real s\<rceil>)
            \<and> (\<forall>i j. i < nat \<lceil>real m / real s\<rceil> \<and> j < nat \<lceil>real m / real s\<rceil>
                   \<longrightarrow> g ! i ! j = grid ! (i * s) ! (j * s)))
         \<and> (m = 256 \<and> int s = downsample \<longrightarrow> nat \<lceil>real m / real s\<rceil> = 52)"
proof -
  let ?g = "map (take_every s) (take_every s grid)"
  have c: "nat \<lceil>real m / real s\<rceil> = (m + s - 1) div s"
    using assms(1) by (rule ceil_div)
  have 1: "slice_step2 (int s) grid = Inr ?g"
    using assms(1) by (rule slice_step2_pos)
  have 2: "length ?g = (m + s - 1) div s"
    using assms by (rule slice_step2_shape(1))
  have 3: "\<forall>row\<in>set ?g. length row = (m + s - 1) div s"
    using assms by (rule slice_step2_shape(2))
  have 4: "\<forall>i j. i < (m + s - 1) div s \<and> j < (m + s - 1) div s
             \<longrightarrow> ?g ! i ! j = grid ! (i * s) ! (j * s)"
    using slice_step2_entry [OF assms] by blast
  have 5: "m = 256 \<and> int s = downsample \<longrightarrow> (m + s - 1) div s = 52"
    by (auto simp: downsample_def)
  show ?thesis
    unfolding c using 1 2 3 4 5 by blast
qed

theorem downsample_grid_10x10_stride_2:
  "(0::nat) < 2
   \<and> length (map (\<lambda>i. map (\<lambda>j. 10 * i + j) [0..<10]) [0..<(10::nat)]) = 10
   \<and> list_all (\<lambda>row. length row = 10) (map (\<lambda>i. map (\<lambda>j. 10 * i + j) [0..<10]) [0..<(10::nat)])
   \<and> slice_step2 2 (map (\<lambda>i. map (\<lambda>j. 10 * i + j) [0..<10]) [0..<(10::nat)])
       = Inr [[0, 2, 4, 6, 8], [20, 22, 24, 26, 28], [40, 42, 44, 46, 48],
              [60, 62, 64, 66, 68], [80, 82, 84, 86, 88]]
   \<and> nat \<lceil>real 10 / real 2\<rceil> = 5
   \<and> (\<exists>g. slice_step2 (int 2) (map (\<lambda>i. map (\<lambda>j. 10 * i + j) [0..<10]) [0..<(10::nat)]) = Inr g
          \<and> length g = nat \<lceil>real 10 / real 2\<rceil>
          \<and> g ! 4 ! 3 = map (\<lambda>i. map (\<lambda>j. 10 * i + j) [0..<10]) [0..<(10::nat)] ! (4 * 2) ! (3 * 2))"
proof -
  let ?grid = "map (\<lambda>i. map (\<lambda>j. 10 * i + j) [0..<10]) [0..<(10::nat)]"
  have h1: "(0::nat) < 2" by simp
  have h2: "length ?grid = 10" by simp
  have h3: "\<forall>row\<in>set ?grid. length row = 10" by simp
  have h3': "list_all (\<lambda>row. length row = 10) ?grid" by (simp add: list_all_iff)
  have ev: "slice_step2 2 ?grid
       = Inr [[0, 2, 4, 6, 8], [20, 22, 24, 26, 28], [40, 42, 44, 46, 48],
              [60, 62, 64, 66, 68], [80, 82, 84, 86, 88]]"
    by code_simp
  have c: "nat \<lceil>real 10 / real 2\<rceil> = 5" by simp
  from downsample_grid_shape_and_entries [OF h1 h2 h3]
  obtain g where g: "slice_step2 (int 2) ?grid = Inr g"
      "length g = nat \<lceil>real 10 / real 2\<rceil>"
      "\<forall>i j. i < nat \<lceil>real 10 / real 2\<rceil> \<and> j < nat \<lceil>real 10 / real 2\<rceil>
           \<longrightarrow> g ! i ! j = ?grid ! (i * 2) ! (j * 2)"
    by blast
  have "g ! 4 ! 3 = ?grid ! (4 * 2) ! (3 * 2)"
    using g(3) c by simp
  with g(1,2) have ex: "\<exists>g. slice_step2 (int 2) ?grid = Inr g
          \<and> length g = nat \<lceil>real 10 / real 2\<rceil>
          \<and> g ! 4 ! 3 = ?grid ! (4 * 2) ! (3 * 2)"
    by blast
  show ?thesis using h1 h2 h3' ev c ex by blast
qed

subsection \<open>Flattening and reshaping\<close>

lemma length_concat_uniform:
  "\<forall>xs\<in>set xss. length xs = k \<Longrightarrow> length (concat xss) = length xss * k"
  by (induction xss) auto

lemma chunk_concat_uniform:
  "\<forall>xs\<in>set xss. length xs = k \<Longrightarrow> i < length xss
   \<Longrightarrow> take k (drop (i * k) (concat xss)) = xss ! i"
proof (induction xss arbitrary: i)
  case Nil
  then show ?case by simp
next
  case (Cons xs xss)
  show ?case
  proof (cases i)
    case 0
    with Cons.prems show ?thesis by simp
  next
    case (Suc j)
    with Cons.prems have "take k (drop (j * k) (concat xss)) = xss ! j"
      by (intro Cons.IH) auto
    moreover have "length xs = k" using Cons.prems by simp
    ultimately show ?thesis using Suc by simp
  qed
qed

lemma reshape2_concat:
  assumes "length g = h" and "\<forall>row\<in>set g. length row = w"
  shows "reshape2 h w (concat g) = Inr g"
proof -
  have len: "length (concat g) = h * w"
    using length_concat_uniform [OF assms(2)] assms(1) by simp
  have "map (\<lambda>i. take w (drop (i * w) (concat g))) [0..<h] = g"
    using assms by (intro nth_equalityI) (auto simp: chunk_concat_uniform)
  with len show ?thesis by (simp add: reshape2_def)
qed

lemma image_flattened_rows:
  assumes n: "0 < n" and len: "length image_list = n"
    and shape: "\<forall>g\<in>set image_list. length g = h \<and> (\<forall>row\<in>set g. length row = w)"
  shows "image_flattened (int n) image_list = Inr (map concat image_list)"
proof -
  have rows: "\<forall>xs\<in>set (map concat image_list). length xs = h * w"
    using shape by (auto simp: length_concat_uniform)
  have size: "length (concat (map concat image_list)) = n * (h * w)"
    using length_concat_uniform [OF rows] len by simp
  have d: "n * (h * w) div n = h * w" using n by simp
  have "map (\<lambda>i. take (h * w) (drop (i * (h * w)) (concat (map concat image_list)))) [0..<n]
        = map concat image_list"
    using len rows by (intro nth_equalityI) (auto simp: chunk_concat_uniform)
  then show ?thesis
    using n by (simp add: image_flattened_def Let_def size d)
qed

subsection \<open>The loop of the pixel loader\<close>

lemma get_pixel_data_loop_acc:
  "get_pixel_data_loop dot facedb images face_ids data_list =
     (case get_pixel_data_loop dot facedb images face_ids [] of
        Inl e \<Rightarrow> Inl e
      | Inr gs \<Rightarrow> Inr (data_list @ gs))"
proof (induction face_ids arbitrary: data_list)
  case Nil
  then show ?case by simp
next
  case (Cons ident face_ids)
  show ?case
  proof (cases "get_pixel_data_step dot facedb images ident")
    case (Inl e)
    then show ?thesis by simp
  next
    case (Inr g)
    have "get_pixel_data_loop dot facedb images face_ids (data_list @ [g]) =
          (case get_pixel_data_loop dot facedb images face_ids [] of
             Inl e \<Rightarrow> Inl e | Inr gs \<Rightarrow> Inr ((data_list @ [g]) @ gs))"
      by (rule Cons.IH)
    moreover have "get_pixel_data_loop dot facedb images face_ids [g] =
          (case get_pixel_data_loop dot facedb images face_ids [] of
             Inl e \<Rightarrow> Inl e | Inr gs \<Rightarrow> Inr ([g] @ gs))"
      by (rule Cons.IH)
    ultimately show ?thesis using Inr by (simp split: sum.splits)
  qed
qed

lemma get_pixel_data_Nil: "get_pixel_data dot facedb images [] = Inr []"
  by (simp add: get_pixel_data_def)

lemma get_pixel_data_Cons:
  "get_pixel_data dot facedb images (ident # face_ids) =
     (case get_pixel_data_step dot facedb images ident of
        Inl e \<Rightarrow> Inl e
      | Inr g \<Rightarrow>
          (case get_pixel_data dot facedb images face_ids of
             Inl e \<Rightarrow> Inl e
           | Inr gs \<Rightarrow> Inr (g # gs)))"
proof (cases "get_pixel_data_step dot facedb images ident")
  case (Inl e)
  then show ?thesis by (simp add: get_pixel_data_def)
next
  case (Inr g)
  have "get_pixel_data_loop dot facedb images face_ids [g] =
          (case get_pixel_data_loop dot facedb images face_ids [] of
             Inl e \<Rightarrow> Inl e | Inr gs \<Rightarrow> Inr ([g] @ gs))"
    by (rule get_pixel_data_loop_acc)
  with Inr show ?thesis by (simp add: get_pixel_data_def split: sum.splits)
qed



lemma get_pixel_data_Inr_iff:
  "get_pixel_data dot facedb images face_ids = Inr stack \<longleftrightarrow>
     list_all2 (\<lambda>ident g. get_pixel_data_step dot facedb images ident = Inr g) face_ids stack"
proof (induction face_ids arbitrary: stack)
  case Nil
  show ?case unfolding get_pixel_data_Nil by auto
next
  case (Cons ident face_ids)
  have "get_pixel_data dot facedb images (ident # face_ids) = Inr stack \<longleftrightarrow>
        (\<exists>g gs. stack = g # gs \<and> get_pixel_data_step dot facedb images ident = Inr g
                \<and> get_pixel_data dot facedb images face_ids = Inr gs)"
    unfolding get_pixel_data_Cons by (auto split: sum.splits)
  also have "\<dots> \<longleftrightarrow>
        (\<exists>g gs. stack = g # gs \<and> get_pixel_data_step dot facedb images ident = Inr g
                \<and> list_all2 (\<lambda>ident g. get_pixel_data_step dot facedb images ident = Inr g)
                     face_ids gs)"
    unfolding Cons.IH ..
  also have "\<dots> \<longleftrightarrow>
        list_all2 (\<lambda>ident g. get_pixel_data_step dot facedb images ident = Inr g)
          (ident # face_ids) stack"
    unfolding list_all2_Cons1 by blast
  finally show ?case .
qed

lemma get_pixel_data_first_failure:
  assumes "list_all (\<lambda>i. \<exists>g. get_pixel_data_step dot facedb images i = Inr g) pre"
    and "get_pixel_data_step dot facedb images ident = Inl e"
  shows "get_pixel_data dot facedb images (pre @ ident # post) = Inl e"
  using assms
proof (induction pre)
  case Nil
  then show ?case by (simp add: get_pixel_data_Cons)
next
  case (Cons i pre)
  then obtain g where "get_pixel_data_step dot facedb images i = Inr g" by auto
  moreover have "get_pixel_data dot facedb images (pre @ ident # post) = Inl e"
    using Cons by simp
  ultimately show ?case by (simp add: get_pixel_data_Cons)
qed

lemma gray_image_wrong_count:
  assumes "pixel_count im_data \<noteq> 256 * 256"
  shows "gray_image dot im_data = Inl ValueError_shapes_not_aligned
       \<or> gray_image dot im_data = Inl ValueError_reshape"
  using assms
  by (cases im_data) (auto simp: gray_image_def pixel_count_def reshape2_def)

lemma reshape2_Inr:
  assumes "length xs = h * w"
  obtains g where "reshape2 h w xs = Inr g" and "length g = h"
    and "\<forall>row\<in>set g. length row = w"
    and "\<forall>i j. i < h \<and> j < w \<longrightarrow> g ! i ! j = xs ! (i * w + j)"
proof -
  let ?g = "map (\<lambda>i. take w (drop (i * w) xs)) [0..<h]"
  have 1: "reshape2 h w xs = Inr ?g" using assms by (simp add: reshape2_def)
  have 2: "length ?g = h" by simp
  have fit: "(i + 1) * w \<le> h * w" if "i < h" for i
    using that by (intro mult_le_mono1) simp
  have 3: "\<forall>row\<in>set ?g. length row = w"
  proof
    fix row assume "row \<in> set ?g"
    then obtain i where i: "i < h" and row: "row = take w (drop (i * w) xs)" by auto
    from fit [OF i] assms have "w \<le> length xs - i * w" by simp
    with row show "length row = w" by simp
  qed
  have 4: "\<forall>i j. i < h \<and> j < w \<longrightarrow> ?g ! i ! j = xs ! (i * w + j)"
  proof (intro allI impI)
    fix i j assume ij: "i < h \<and> j < w"
    with fit [of i] assms have "i * w + j < length xs" by simp
    with ij show "?g ! i ! j = xs ! (i * w + j)" by simp
  qed
  from 1 2 3 4 show ?thesis using that by blast
qed

lemma gray_image_rgb:
  assumes "length ps = 256 * 256" and "list_all (\<lambda>p. length p = 3) ps"
  shows "gray_image dot (Pixels ps) = reshape2 256 256 (map dot ps)"
proof -
  from assms(1) have "ps \<noteq> []" by auto
  with assms(2) show ?thesis by (simp add: gray_image_def)
qed

lemma get_pixel_data_step_valid:
  assumes "valid_face_id facedb images ident"
  obtains r ps g where "lookup_label facedb ident = Some r"
    and "images (fullpath r) = Content (Pixels ps)"
    and "length ps = 256 * 256"
    and "get_pixel_data_step dot facedb images ident = Inr g"
    and "length g = 52" and "\<forall>row\<in>set g. length row = 52"
    and "\<forall>a b. a < 52 \<and> b < 52 \<longrightarrow> g ! a ! b = dot (ps ! (256 * (5 * a) + 5 * b))"
proof -
  from assms obtain r where r: "lookup_label facedb ident = Some r"
    by (auto simp: valid_face_id_def split: option.splits)
  with assms obtain ps where ps: "images (fullpath r) = Content (Pixels ps)"
    "length ps = 256 * 256" "list_all (\<lambda>p. length p = 3) ps"
    by (auto simp: valid_face_id_def split: stored.splits imdata.splits)
  have "length (map dot ps) = 256 * 256" using ps(2) by simp
  then obtain gray where gray: "reshape2 256 256 (map dot ps) = Inr gray" "length gray = 256"
    "\<forall>row\<in>set gray. length row = 256"
    "\<forall>i j. i < 256 \<and> j < 256 \<longrightarrow> gray ! i ! j = map dot ps ! (i * 256 + j)"
    by (rule reshape2_Inr) blast
  let ?g = "map (take_every 5) (take_every 5 gray)"
  have pos: "(0::nat) < 5" by simp
  have c: "(256 + 5 - 1) div 5 = (52::nat)" by simp
  have sl: "slice_step2 downsample gray = Inr ?g"
    using slice_step2_pos [OF pos, of gray] by (simp add: downsample_def)
  have step: "get_pixel_data_step dot facedb images ident = Inr ?g"
    using r ps(1) gray(1) sl
    by (simp add: get_pixel_data_step_def gray_image_rgb [OF ps(2,3)])
  have len: "length ?g = 52"
    using slice_step2_shape(1) [OF pos gray(2) gray(3)] c by simp
  have rows: "\<forall>row\<in>set ?g. length row = 52"
    using slice_step2_shape(2) [OF pos gray(2) gray(3)] c by simp
  have ent: "\<forall>a b. a < 52 \<and> b < 52 \<longrightarrow> ?g ! a ! b = dot (ps ! (256 * (5 * a) + 5 * b))"
  proof (intro allI impI)
    fix a b :: nat assume ab: "a < 52 \<and> b < 52"
    then have a: "a < (256 + 5 - 1) div 5" and b: "b < (256 + 5 - 1) div 5" by simp_all
    have "?g ! a ! b = gray ! (a * 5) ! (b * 5)"
      using slice_step2_entry [OF pos gray(2) gray(3) a b] .
    also have "\<dots> = map dot ps ! (a * 5 * 256 + b * 5)"
      using gray(4) ab by simp
    also have "\<dots> = dot (ps ! (a * 5 * 256 + b * 5))"
      using ab ps(2) by (intro nth_map) simp
    also have "a * 5 * 256 + b * 5 = 256 * (5 * a) + 5 * b" by simp
    finally show "?g ! a ! b = dot (ps ! (256 * (5 * a) + 5 * b))" .
  qed
  from r ps(1,2) step len rows ent show ?thesis using that by blast
qed

subsection \<open>Flattening: the round trip\<close>

text \<open>
  Claim C4, for a stack that is not empty. Flattening a stack of \<open>n \<ge> 1\<close> images of shape
  \<open>(h, w)\<close> with \<open>reshape(n, -1)\<close> succeeds and yields \<open>n\<close> rows of length \<open>h * w\<close>, and
  reshaping row \<open>i\<close> back to \<open>(h, w)\<close> gives the \<open>i\<close>-th grid again.
\<close>

theorem flatten_reshape_round_trip:
  assumes "0 < n" and "length image_list = n"
    and "\<forall>g\<in>set image_list. length g = h \<and> (\<forall>row\<in>set g. length row = w)"
  shows "\<exists>M. image_flattened (int n) image_list = Inr M
            \<and> length M = n
            \<and> (\<forall>row\<in>set M. length row = h * w)
            \<and> (\<forall>i<n. reshape2 h w (M ! i) = Inr (image_list ! i))"
proof -
  let ?M = "map concat image_list"
  have 1: "image_flattened (int n) image_list = Inr ?M"
    using assms by (rule image_flattened_rows)
  have 2: "length ?M = n" using assms(2) by simp
  have 3: "\<forall>row\<in>set ?M. length row = h * w"
    using assms(3) by (auto simp: length_concat_uniform)
  have 4: "\<forall>i<n. reshape2 h w (?M ! i) = Inr (image_list ! i)"
  proof (intro allI impI)
    fix i assume i: "i < n"
    with assms(2) have "image_list ! i \<in> set image_list" by simp
    with assms(3) have "length (image_list ! i) = h"
      and "\<forall>row\<in>set (image_list ! i). length row = w" by auto
    then have "reshape2 h w (concat (image_list ! i)) = Inr (image_list ! i)"
      by (rule reshape2_concat)
    with i assms(2) show "reshape2 h w (?M ! i) = Inr (image_list ! i)" by simp
  qed
  from 1 2 3 4 show ?thesis by blast
qed

text \<open>
  For the empty stack (\<open>n = 0\<close>) the flattening \<open>reshape(0, -1)\<close> raises ValueError: there
  is no matrix of shape \<open>(0, h * w)\<close>.
\<close>

theorem flatten_empty_stack_raises:
  "image_flattened (int (length ([] :: nat list list list))) [] = Inl ValueError_reshape"
  by (simp add: image_flattened_def)

text \<open>A stack of two 2 x 2 images.\<close>

theorem flatten_reshape_round_trip_2x2:
  "(0::nat) < 2
   \<and> length [[[1, 2], [3, 4]], [[5, 6], [7, 8::nat]]] = 2
   \<and> list_all (\<lambda>g. length g = 2 \<and> list_all (\<lambda>row. length row = 2) g)
        [[[1, 2], [3, 4]], [[5, 6], [7, 8::nat]]]
   \<and> image_flattened 2 [[[1, 2], [3, 4]], [[5, 6], [7, 8::nat]]] = Inr [[1, 2, 3, 4], [5, 6, 7, 8]]
   \<and> reshape2 2 2 [5, 6, 7, 8::nat] = Inr [[5, 6], [7, 8]]
   \<and> (\<exists>M. image_flattened (int 2) [[[1, 2], [3, 4]], [[5, 6], [7, 8::nat]]] = Inr M
          \<and> length M = 2
          \<and> reshape2 2 2 (M ! 0) = Inr [[1, 2], [3, 4]]
          \<and> reshape2 2 2 (M ! 1) = Inr [[5, 6], [7, 8]])"
proof -
  let ?stack = "[[[1, 2], [3, 4]], [[5, 6], [7, 8::nat]]]"
  have h1: "(0::nat) < 2" by simp
  have h2: "length ?stack = 2" by simp
  have h3: "\<forall>g\<in>set ?stack. length g = 2 \<and> (\<forall>row\<in>set g. length row = 2)" by simp
  have h3': "list_all (\<lambda>g. length g = 2 \<and> list_all (\<lambda>row. length row = 2) g) ?stack" by simp
  have e1: "image_flattened 2 ?stack = Inr [[1, 2, 3, 4], [5, 6, 7, 8]]" by code_simp
  have e2: "reshape2 2 2 [5, 6, 7, 8::nat] = Inr [[5, 6], [7, 8]]" by code_simp
  from flatten_reshape_round_trip [OF h1 h2 h3]
  obtain M where M: "image_flattened (int 2) ?stack = Inr M" "length M = 2"
    "\<forall>i<2. reshape2 2 2 (M ! i) = Inr (?stack ! i)"
    by blast
  from M(3) have "reshape2 2 2 (M ! 0) = Inr (?stack ! 0)" "reshape2 2 2 (M ! 1) = Inr (?stack ! 1)"
    by simp_all
  then have "reshape2 2 2 (M ! 0) = Inr [[1, 2], [3, 4]]" "reshape2 2 2 (M ! 1) = Inr [[5, 6], [7, 8]]"
    by simp_all
  with M(1,2) have ex: "\<exists>M. image_flattened (int 2) ?stack = Inr M
          \<and> length M = 2
          \<and> reshape2 2 2 (M ! 0) = Inr [[1, 2], [3, 4]]
          \<and> reshape2 2 2 (M ! 1) = Inr [[5, 6], [7, 8]]"
    by blast
  show ?thesis using h1 h2 h3' e1 e2 ex by blast
qed

subsection \<open>The pixel loader: failures and the stack\<close>

lemma get_pixel_data_step_wrong_count:
  assumes "lookup_label facedb ident = Some r" and "images (fullpath r) = Content im_data"
    and "pixel_count im_data \<noteq> 256 * 256"
  shows "get_pixel_data_step dot facedb images ident = Inl ValueError_shapes_not_aligned
       \<or> get_pixel_data_step dot facedb images ident = Inl ValueError_reshape"
  using gray_image_wrong_count [OF assms(3), of dot] assms(1,2)
  by (auto simp: get_pixel_data_step_def)

lemma get_pixel_data_all_steps:
  assumes "get_pixel_data dot facedb images face_ids = Inr stack" and "ident \<in> set face_ids"
  shows "\<exists>g. get_pixel_data_step dot facedb images ident = Inr g"
proof -
  from assms(1) have l: "list_all2 (\<lambda>ident g. get_pixel_data_step dot facedb images ident = Inr g)
      face_ids stack"
    by (simp only: get_pixel_data_Inr_iff)
  from assms(2) obtain i where i: "i < length face_ids" "face_ids ! i = ident"
    by (auto simp: in_set_conv_nth)
  from list_all2_nthD [OF l i(1)] i(2) show ?thesis by auto
qed

text \<open>
  Claim C7. An image of the catalog that decodes to a number of pixels other than
  256 * 256 makes its pass of the loop raise a ValueError, from \<open>np.dot\<close> (shapes not aligned)
  or from \<open>reshape(256, 256)\<close>; a call of \<open>get_pixel_data\<close> whose identifiers include it
  returns no stack, and when every identifier before it loads, that ValueError is the
  exception of the call. Nothing checks the size before.
\<close>

theorem wrong_pixel_count_fails:
  assumes "lookup_label facedb ident = Some r" and "images (fullpath r) = Content im_data"
    and "pixel_count im_data \<noteq> 256 * 256"
  shows "(get_pixel_data_step dot facedb images ident = Inl ValueError_shapes_not_aligned
          \<or> get_pixel_data_step dot facedb images ident = Inl ValueError_reshape)
       \<and> (ident \<in> set face_ids \<longrightarrow> isl (get_pixel_data dot facedb images face_ids))
       \<and> (\<forall>pre post. face_ids = pre @ ident # post
             \<and> list_all (\<lambda>i. \<not> isl (get_pixel_data_step dot facedb images i)) pre
             \<longrightarrow> get_pixel_data dot facedb images face_ids = Inl ValueError_shapes_not_aligned
               \<or> get_pixel_data dot facedb images face_ids = Inl ValueError_reshape)"
proof -
  have step: "get_pixel_data_step dot facedb images ident = Inl ValueError_shapes_not_aligned
          \<or> get_pixel_data_step dot facedb images ident = Inl ValueError_reshape"
    using assms by (rule get_pixel_data_step_wrong_count)
  then obtain e where e: "get_pixel_data_step dot facedb images ident = Inl e" by blast
  have whole: "isl (get_pixel_data dot facedb images face_ids)" if "ident \<in> set face_ids"
  proof (cases "get_pixel_data dot facedb images face_ids")
    case (Inl e')
    then show ?thesis by simp
  next
    case (Inr stack)
    from get_pixel_data_all_steps [OF Inr that] e show ?thesis by simp
  qed
  have first: "get_pixel_data dot facedb images face_ids = Inl ValueError_shapes_not_aligned
               \<or> get_pixel_data dot facedb images face_ids = Inl ValueError_reshape"
    if "face_ids = pre @ ident # post"
      and "list_all (\<lambda>i. \<not> isl (get_pixel_data_step dot facedb images i)) pre" for pre post
  proof -
    have "\<exists>g. x = Inr g" if "\<not> isl x" for x :: "error + 'a list list"
      using that by (cases x) simp_all
    with that(2) have "list_all (\<lambda>i. \<exists>g. get_pixel_data_step dot facedb images i = Inr g) pre"
      by (simp add: list_all_iff)
    from get_pixel_data_first_failure [OF this e] that(1) e step show ?thesis by auto
  qed
  from step whole first show ?thesis by blast
qed

text \<open>An image of two RGB pixels.\<close>

theorem wrong_pixel_count_fails_two_pixels:
  "lookup_label [catalog_row ''/d/generated.photos/a_0000001_b.jpg''] 0
     = Some (catalog_row ''/d/generated.photos/a_0000001_b.jpg'')
   \<and> pixel_count (Pixels [[1, 2, 3], [4, 5, 6]]) \<noteq> 256 * 256
   \<and> get_pixel_data_step rgb_dot_exact [catalog_row ''/d/generated.photos/a_0000001_b.jpg'']
        (\<lambda>p. Content (Pixels [[1, 2, 3], [4, 5, 6]])) 0 = Inl ValueError_reshape
   \<and> isl (get_pixel_data rgb_dot_exact [catalog_row ''/d/generated.photos/a_0000001_b.jpg'']
        (\<lambda>p. Content (Pixels [[1, 2, 3], [4, 5, 6]])) [0])"
proof -
  let ?db = "[catalog_row ''/d/generated.photos/a_0000001_b.jpg'']"
  let ?images = "\<lambda>p::string. Content (Pixels [[1, 2, 3], [4, 5, 6]])"
  have h1: "lookup_label ?db 0 = Some (catalog_row ''/d/generated.photos/a_0000001_b.jpg'')"
    by (simp add: lookup_label_def)
  have h2: "?images (fullpath (catalog_row ''/d/generated.photos/a_0000001_b.jpg''))
            = Content (Pixels [[1, 2, 3], [4, 5, 6]])"
    by simp
  have h3: "pixel_count (Pixels [[1, 2, 3], [4, 5, 6]]) \<noteq> 256 * 256"
    by (simp add: pixel_count_def)
  have ev: "get_pixel_data_step rgb_dot_exact ?db ?images 0 = Inl ValueError_reshape"
    using h1 by (simp add: get_pixel_data_step_def gray_image_def reshape2_def)
  have "(0::int) \<in> set [0]" by simp
  with wrong_pixel_count_fails [OF h1 h2 h3, of rgb_dot_exact "[0]"]
  have "isl (get_pixel_data rgb_dot_exact ?db ?images [0])" by blast
  with h1 h3 ev show ?thesis by blast
qed

text \<open>
  Claim C9. For identifiers that are all valid (a row of the catalog whose file decodes to
  256 * 256 RGB pixels), \<open>get_pixel_data\<close> returns a stack with one grid per identifier,
  every grid of shape 52 x 52, and the \<open>i\<close>-th grid is the one loaded for the \<open>i\<close>-th
  identifier: its entry \<open>(a, b)\<close> is the gray value of pixel \<open>(5 * a, 5 * b)\<close> of that image.
\<close>

theorem get_pixel_data_stack:
  assumes "list_all (valid_face_id facedb images) face_ids"
  shows "\<exists>stack. get_pixel_data dot facedb images face_ids = Inr stack
           \<and> length stack = length face_ids
           \<and> (\<forall>g\<in>set stack. length g = 52 \<and> (\<forall>row\<in>set g. length row = 52))
           \<and> (\<forall>i<length face_ids.
                 get_pixel_data_step dot facedb images (face_ids ! i) = Inr (stack ! i))
           \<and> (\<forall>i<length face_ids. \<forall>r ps.
                 lookup_label facedb (face_ids ! i) = Some r
                 \<and> images (fullpath r) = Content (Pixels ps)
                 \<longrightarrow> (\<forall>a<52. \<forall>b<52. stack ! i ! a ! b = dot (ps ! (256 * (5 * a) + 5 * b))))"
  using assms
proof (induction face_ids)
  case Nil
  show ?case by (simp add: get_pixel_data_Nil)
next
  case (Cons ident face_ids)
  from Cons.prems have v: "valid_face_id facedb images ident"
    and rest: "list_all (valid_face_id facedb images) face_ids" by simp_all
  from Cons.IH [OF rest] obtain gs where gs:
    "get_pixel_data dot facedb images face_ids = Inr gs"
    "length gs = length face_ids"
    "\<forall>g\<in>set gs. length g = 52 \<and> (\<forall>row\<in>set g. length row = 52)"
    "\<forall>i<length face_ids. get_pixel_data_step dot facedb images (face_ids ! i) = Inr (gs ! i)"
    "\<forall>i<length face_ids. \<forall>r ps.
        lookup_label facedb (face_ids ! i) = Some r \<and> images (fullpath r) = Content (Pixels ps)
        \<longrightarrow> (\<forall>a<52. \<forall>b<52. gs ! i ! a ! b = dot (ps ! (256 * (5 * a) + 5 * b)))"
    by blast
  from v obtain r0 ps0 g where g:
    "lookup_label facedb ident = Some r0" "images (fullpath r0) = Content (Pixels ps0)"
    "get_pixel_data_step dot facedb images ident = Inr g"
    "length g = 52" "\<forall>row\<in>set g. length row = 52"
    "\<forall>a b. a < 52 \<and> b < 52 \<longrightarrow> g ! a ! b = dot (ps0 ! (256 * (5 * a) + 5 * b))"
    by (rule get_pixel_data_step_valid [where dot = dot]) blast
  let ?stack = "g # gs"
  have 1: "get_pixel_data dot facedb images (ident # face_ids) = Inr ?stack"
    using g(3) gs(1) by (simp add: get_pixel_data_Cons)
  have 2: "length ?stack = length (ident # face_ids)" using gs(2) by simp
  have 3: "\<forall>g\<in>set ?stack. length g = 52 \<and> (\<forall>row\<in>set g. length row = 52)"
    using g(4,5) gs(3) by simp
  have 4: "\<forall>i<length (ident # face_ids).
             get_pixel_data_step dot facedb images ((ident # face_ids) ! i) = Inr (?stack ! i)"
  proof (intro allI impI)
    fix i assume "i < length (ident # face_ids)"
    then show "get_pixel_data_step dot facedb images ((ident # face_ids) ! i) = Inr (?stack ! i)"
      using g(3) gs(4) by (cases i) simp_all
  qed
  have 5: "\<forall>i<length (ident # face_ids). \<forall>r ps.
        lookup_label facedb ((ident # face_ids) ! i) = Some r
        \<and> images (fullpath r) = Content (Pixels ps)
        \<longrightarrow> (\<forall>a<52. \<forall>b<52. ?stack ! i ! a ! b = dot (ps ! (256 * (5 * a) + 5 * b)))"
  proof (intro allI impI)
    fix i r ps a b
    assume i: "i < length (ident # face_ids)"
      and rp: "lookup_label facedb ((ident # face_ids) ! i) = Some r
               \<and> images (fullpath r) = Content (Pixels ps)"
      and a: "a < (52::nat)" and b: "b < (52::nat)"
    show "?stack ! i ! a ! b = dot (ps ! (256 * (5 * a) + 5 * b))"
    proof (cases i)
      case 0
      with rp g(1,2) have "ps = ps0" by simp
      with 0 g(6) a b show ?thesis by simp
    next
      case (Suc j)
      with i have j: "j < length face_ids" by simp
      from rp Suc have "lookup_label facedb (face_ids ! j) = Some r
               \<and> images (fullpath r) = Content (Pixels ps)" by simp
      with gs(5) j a b have "gs ! j ! a ! b = dot (ps ! (256 * (5 * a) + 5 * b))" by blast
      with Suc show ?thesis by simp
    qed
  qed
  from 1 2 3 4 5 show ?case by blast
qed


text \<open>Two images of constant colour, loaded in the order 1, 0.\<close>

theorem get_pixel_data_stack_two_ids:
  "list_all (valid_face_id
       [catalog_row ''/d/generated.photos/a_0000001_b.jpg'',
        catalog_row ''/d/generated.photos/a_0000002_b.jpg'']
       (\<lambda>p. if p = ''/d/generated.photos/a_0000001_b.jpg''
            then Content (Pixels (replicate 65536 [255, 255, 255]))
            else Content (Pixels (replicate 65536 [10, 20, 30]))))
     [1, 0]
   \<and> (\<exists>stack. get_pixel_data rgb_dot_exact
          [catalog_row ''/d/generated.photos/a_0000001_b.jpg'',
           catalog_row ''/d/generated.photos/a_0000002_b.jpg'']
          (\<lambda>p. if p = ''/d/generated.photos/a_0000001_b.jpg''
               then Content (Pixels (replicate 65536 [255, 255, 255]))
               else Content (Pixels (replicate 65536 [10, 20, 30])))
          [1, 0] = Inr stack
        \<and> length stack = 2
        \<and> length (stack ! 0) = 52 \<and> length (stack ! 1) = 52
        \<and> stack ! 0 ! 51 ! 51 = rgb_dot_exact [10, 20, 30]
        \<and> stack ! 1 ! 51 ! 51 = rgb_dot_exact [255, 255, 255])"
proof -
  let ?p1 = "''/d/generated.photos/a_0000001_b.jpg''"
  let ?p2 = "''/d/generated.photos/a_0000002_b.jpg''"
  let ?db = "[catalog_row ?p1, catalog_row ?p2]"
  let ?images = "\<lambda>p. if p = ?p1 then Content (Pixels (replicate 65536 [255, 255, 255]))
                     else Content (Pixels (replicate 65536 [10, 20, 30::int]))"
  have l0: "lookup_label ?db 0 = Some (catalog_row ?p1)"
    and l1: "lookup_label ?db 1 = Some (catalog_row ?p2)"
    by (simp_all add: lookup_label_def)
  have f1: "fullpath (catalog_row ?p1) = ?p1" and f2: "fullpath (catalog_row ?p2) = ?p2"
    by (simp_all add: catalog_row_def Let_def)
  have i1: "?images ?p1 = Content (Pixels (replicate 65536 [255, 255, 255]))"
    and i2: "?images ?p2 = Content (Pixels (replicate 65536 [10, 20, 30]))"
    by simp_all
  have v0: "valid_face_id ?db ?images 0"
    unfolding valid_face_id_def l0 f1 i1 by (simp add: list_all_iff)
  have v1: "valid_face_id ?db ?images 1"
    unfolding valid_face_id_def l1 f2 i2 by (simp add: list_all_iff)
  have hyp: "list_all (valid_face_id ?db ?images) [1, 0]"
    using v0 v1 by simp
  from get_pixel_data_stack [OF hyp, of rgb_dot_exact]
  obtain stack where st: "get_pixel_data rgb_dot_exact ?db ?images [1, 0] = Inr stack"
    "length stack = length [1, 0::int]"
    "\<forall>g\<in>set stack. length g = 52 \<and> (\<forall>row\<in>set g. length row = 52)"
    "\<forall>i<length [1, 0::int]. \<forall>r ps.
        lookup_label ?db ([1, 0] ! i) = Some r \<and> ?images (fullpath r) = Content (Pixels ps)
        \<longrightarrow> (\<forall>a<52. \<forall>b<52. stack ! i ! a ! b = rgb_dot_exact (ps ! (256 * (5 * a) + 5 * b)))"
    by blast
  from st(2) have len: "length stack = 2" by simp
  then have "stack ! 0 \<in> set stack" "stack ! 1 \<in> set stack" by simp_all
  with st(3) have rows: "length (stack ! 0) = 52" "length (stack ! 1) = 52" by blast+
  have k0: "(0::nat) < length [1, 0::int]" and k1: "(1::nat) < length [1, 0::int]"
    and k51: "(51::nat) < 52"
    by simp_all
  have q0: "lookup_label ?db ([1, 0] ! 0) = Some (catalog_row ?p2)
        \<and> ?images (fullpath (catalog_row ?p2)) = Content (Pixels (replicate 65536 [10, 20, 30]))"
    using l1 f2 i2 by simp
  have "stack ! 0 ! 51 ! 51
      = rgb_dot_exact (replicate 65536 [10, 20, 30] ! (256 * (5 * 51) + 5 * 51))"
    using st(4) [rule_format, OF k0 q0 k51 k51] .
  then have e0: "stack ! 0 ! 51 ! 51 = rgb_dot_exact [10, 20, 30]" by simp
  have q1: "lookup_label ?db ([1, 0] ! 1) = Some (catalog_row ?p1)
        \<and> ?images (fullpath (catalog_row ?p1)) = Content (Pixels (replicate 65536 [255, 255, 255]))"
    using l0 f1 i1 by simp
  have "stack ! 1 ! 51 ! 51
      = rgb_dot_exact (replicate 65536 [255, 255, 255] ! (256 * (5 * 51) + 5 * 51))"
    using st(4) [rule_format, OF k1 q1 k51 k51] .
  then have e1: "stack ! 1 ! 51 ! 51 = rgb_dot_exact [255, 255, 255]" by simp
  from hyp st(1) len rows e0 e1 show ?thesis by blast
qed

subsection \<open>The catalog: search, partition and replacement\<close>

lemma id_at_0_iff:
  "id_at s 0 d \<longleftrightarrow> id_match_here s \<and> d = take 7 (drop 1 s)"
proof
  assume "id_at s 0 d"
  then obtain sep post where s: "s = CHR ''_'' # d @ sep # post" and d: "length d = 7"
    and dig: "list_all is_digit d" and sep: "sep = CHR ''_'' \<or> sep = CHR ''.''"
    by (auto simp: id_at_def)
  from s d have "s ! 8 = sep" by (simp add: nth_append)
  with s d dig sep show "id_match_here s \<and> d = take 7 (drop 1 s)"
    by (auto simp: id_match_here_def)
next
  assume a: "id_match_here s \<and> d = take 7 (drop 1 s)"
  then have len: "9 \<le> length s" and us: "s ! 0 = CHR ''_''"
    and dig: "list_all is_digit d" and sep: "s ! 8 = CHR ''_'' \<or> s ! 8 = CHR ''.''"
    and d: "d = take 7 (drop 1 s)"
    by (auto simp: id_match_here_def)
  have "s = take 1 s @ drop 1 s" by simp
  also have "take 1 s = [s ! 0]" using len by (cases s) auto
  also have "drop 1 s = take 7 (drop 1 s) @ drop 7 (drop 1 s)"
    by (rule append_take_drop_id [symmetric])
  also have "drop 7 (drop 1 s) = drop 8 s" by simp
  also have "drop 8 s = s ! 8 # drop 9 s"
    using len Cons_nth_drop_Suc [of 8 s] by simp
  finally have "s = [] @ ''_'' @ d @ s ! 8 # drop 9 s" using us d by simp
  moreover have "length d = 7" using d len by simp
  ultimately show "id_at s 0 d" using dig sep unfolding id_at_def by blast
qed

lemma id_at_Suc: "id_at (c # cs) (Suc k) d \<longleftrightarrow> id_at cs k d"
proof
  assume "id_at (c # cs) (Suc k) d"
  then obtain pre sep post where s: "c # cs = pre @ ''_'' @ d @ sep # post"
    and k: "length pre = Suc k" and r: "length d = 7" "list_all is_digit d"
      "sep = CHR ''_'' \<or> sep = CHR ''.''"
    by (auto simp: id_at_def)
  from k obtain pre' where pre: "pre = c # pre'" "length pre' = k"
    using s by (cases pre) auto
  with s have "cs = pre' @ ''_'' @ d @ sep # post" by simp
  with pre r show "id_at cs k d" unfolding id_at_def by blast
next
  assume "id_at cs k d"
  then obtain pre sep post where s: "cs = pre @ ''_'' @ d @ sep # post"
    and k: "length pre = k" and r: "length d = 7" "list_all is_digit d"
      "sep = CHR ''_'' \<or> sep = CHR ''.''"
    by (auto simp: id_at_def)
  then have "c # cs = (c # pre) @ ''_'' @ d @ sep # post" "length (c # pre) = Suc k" by simp_all
  with r show "id_at (c # cs) (Suc k) d" unfolding id_at_def by blast
qed

lemma id_at_Nil: "\<not> id_at [] k d"
  by (simp add: id_at_def)

lemma str_extract_faceid_Some:
  "str_extract_faceid s = Some d \<longleftrightarrow> (\<exists>k. id_at s k d \<and> (\<forall>j<k. \<forall>d'. \<not> id_at s j d'))"
proof (induction s)
  case Nil
  show ?case by (simp add: id_at_Nil)
next
  case (Cons c cs)
  show ?case
  proof (cases "id_match_here (c # cs)")
    case True
    have "(\<exists>k. id_at (c # cs) k d \<and> (\<forall>j<k. \<forall>d'. \<not> id_at (c # cs) j d'))
          \<longleftrightarrow> id_at (c # cs) 0 d"
    proof
      assume "\<exists>k. id_at (c # cs) k d \<and> (\<forall>j<k. \<forall>d'. \<not> id_at (c # cs) j d')"
      then obtain k where k: "id_at (c # cs) k d" "\<forall>j<k. \<forall>d'. \<not> id_at (c # cs) j d'"
        by blast
      from True have "id_at (c # cs) 0 (take 7 (drop 1 (c # cs)))"
        by (simp only: id_at_0_iff simp_thms)
      with k(2) have "k = 0" by (cases k) auto
      with k(1) show "id_at (c # cs) 0 d" by simp
    next
      assume "id_at (c # cs) 0 d"
      then show "\<exists>k. id_at (c # cs) k d \<and> (\<forall>j<k. \<forall>d'. \<not> id_at (c # cs) j d')"
        by (intro exI [of _ 0]) simp
    qed
    with True show ?thesis by (auto simp: id_at_0_iff)
  next
    case False
    then have no0: "\<And>d'. \<not> id_at (c # cs) 0 d'" by (simp add: id_at_0_iff)
    have "(\<exists>k. id_at (c # cs) k d \<and> (\<forall>j<k. \<forall>d'. \<not> id_at (c # cs) j d'))
          \<longleftrightarrow> (\<exists>k. id_at cs k d \<and> (\<forall>j<k. \<forall>d'. \<not> id_at cs j d'))"
    proof
      assume "\<exists>k. id_at (c # cs) k d \<and> (\<forall>j<k. \<forall>d'. \<not> id_at (c # cs) j d')"
      then obtain k where k: "id_at (c # cs) k d" "\<forall>j<k. \<forall>d'. \<not> id_at (c # cs) j d'"
        by blast
      with no0 obtain k' where k': "k = Suc k'" by (cases k) auto
      with k(1) have 1: "id_at cs k' d" by (simp add: id_at_Suc)
      have "\<forall>j<k'. \<forall>d'. \<not> id_at cs j d'"
      proof (intro allI impI)
        fix j d' assume "j < k'"
        then have "Suc j < k" using k' by simp
        with k(2) have "\<not> id_at (c # cs) (Suc j) d'" by blast
        then show "\<not> id_at cs j d'" by (simp add: id_at_Suc)
      qed
      with 1 show "\<exists>k. id_at cs k d \<and> (\<forall>j<k. \<forall>d'. \<not> id_at cs j d')" by blast
    next
      assume "\<exists>k. id_at cs k d \<and> (\<forall>j<k. \<forall>d'. \<not> id_at cs j d')"
      then obtain k where k: "id_at cs k d" "\<forall>j<k. \<forall>d'. \<not> id_at cs j d'" by blast
      have "\<forall>j<Suc k. \<forall>d'. \<not> id_at (c # cs) j d'"
      proof (intro allI impI)
        fix j d' assume j: "j < Suc k"
        show "\<not> id_at (c # cs) j d'"
        proof (cases j)
          case 0
          with no0 show ?thesis by simp
        next
          case (Suc j')
          with j k(2) show ?thesis by (simp add: id_at_Suc)
        qed
      qed
      moreover have "id_at (c # cs) (Suc k) d" using k(1) by (simp add: id_at_Suc)
      ultimately show "\<exists>k. id_at (c # cs) k d \<and> (\<forall>j<k. \<forall>d'. \<not> id_at (c # cs) j d')"
        by blast
    qed
    with False Cons.IH show ?thesis by simp
  qed
qed

lemma str_extract_faceid_None:
  "str_extract_faceid s = None \<longleftrightarrow> (\<forall>k d. \<not> id_at s k d)"
proof (induction s)
  case Nil
  show ?case by (simp add: id_at_Nil)
next
  case (Cons c cs)
  show ?case
  proof (cases "id_match_here (c # cs)")
    case True
    then have "id_at (c # cs) 0 (take 7 (drop 1 (c # cs)))"
      by (simp only: id_at_0_iff simp_thms)
    with True show ?thesis by auto
  next
    case False
    then have no0: "\<And>d'. \<not> id_at (c # cs) 0 d'" by (simp add: id_at_0_iff)
    have "(\<forall>k d. \<not> id_at (c # cs) k d) \<longleftrightarrow> (\<forall>k d. \<not> id_at cs k d)"
    proof
      assume a: "\<forall>k d. \<not> id_at (c # cs) k d"
      show "\<forall>k d. \<not> id_at cs k d"
      proof (intro allI)
        fix k d from a have "\<not> id_at (c # cs) (Suc k) d" by blast
        then show "\<not> id_at cs k d" by (simp add: id_at_Suc)
      qed
    next
      assume a: "\<forall>k d. \<not> id_at cs k d"
      show "\<forall>k d. \<not> id_at (c # cs) k d"
      proof (intro allI)
        fix k d show "\<not> id_at (c # cs) k d"
          using no0 a by (cases k) (simp_all add: id_at_Suc)
      qed
    qed
    with False Cons.IH show ?thesis by simp
  qed
qed

lemma rpartition_last_slash:
  assumes "sep \<notin> set name"
  shows "rpartition sep (d @ sep # name) = (d, [sep], name)"
proof -
  have r: "rev (d @ sep # name) = rev name @ sep # rev d" by simp
  have "takeWhile (\<lambda>c. c \<noteq> sep) (rev name @ sep # rev d)
          = rev name @ takeWhile (\<lambda>c. c \<noteq> sep) (sep # rev d)"
    using assms by (intro takeWhile_append2) auto
  then have t: "takeWhile (\<lambda>c. c \<noteq> sep) (rev name @ sep # rev d) = rev name" by simp
  have "dropWhile (\<lambda>c. c \<noteq> sep) (rev name @ sep # rev d)
          = dropWhile (\<lambda>c. c \<noteq> sep) (sep # rev d)"
    using assms by (intro dropWhile_append2) auto
  then have dr: "dropWhile (\<lambda>c. c \<noteq> sep) (rev name @ sep # rev d) = sep # rev d" by simp
  show ?thesis unfolding rpartition_def r t dr by simp
qed

lemma rpartition_no_slash:
  "sep \<notin> set s \<Longrightarrow> rpartition sep s = ([], [], s)"
  by (simp add: rpartition_def)

lemma str_replace_no_occurrence:
  assumes "old \<noteq> []" and "\<not> sublist old s"
  shows "str_replace old new s = s"
  using assms(2)
proof (induction s)
  case Nil
  with assms(1) show ?case by simp
next
  case (Cons c cs)
  from Cons.prems have np: "\<not> prefix old (c # cs)" and "\<not> sublist old cs"
    by (simp_all add: sublist_Cons_right)
  with Cons.IH have "str_replace old new cs = cs" by simp
  with np assms(1) show ?case by simp
qed

lemma str_replace_first_occurrence:
  assumes "old \<noteq> []" and "\<not> sublist old (pre @ butlast old)"
  shows "str_replace old new (pre @ old @ post) = pre @ new @ str_replace old new post"
  using assms(2)
proof (induction pre)
  case Nil
  from assms(1) obtain c cs where old: "old = c # cs" by (cases old) auto
  have "prefix old (old @ post)" by simp
  then have "str_replace old new (old @ post)
        = new @ str_replace old new (drop (length old) (old @ post))"
    unfolding old by simp
  then show ?case by simp
next
  case (Cons c pre)
  have split: "c # pre @ old @ post = ((c # pre) @ butlast old) @ (last old # post)"
    using assms(1) by simp
  have np: "\<not> prefix old (c # pre @ old @ post)"
  proof
    assume p: "prefix old (c # pre @ old @ post)"
    have q: "prefix ((c # pre) @ butlast old) (c # pre @ old @ post)"
      unfolding split by (rule prefixI) simp
    have "length old \<le> length ((c # pre) @ butlast old)" by simp
    with p q have "prefix old ((c # pre) @ butlast old)" by (rule prefix_length_prefix)
    then have "sublist old ((c # pre) @ butlast old)" by (rule prefix_imp_sublist)
    with Cons.prems show False by simp
  qed
  from Cons.prems have "\<not> sublist old (pre @ butlast old)"
    by (simp add: sublist_Cons_right)
  with Cons.IH have "str_replace old new (pre @ old @ post) = pre @ new @ str_replace old new post"
    by simp
  with np assms(1) show ?case by simp
qed


lemma jsonfile_of_plain:
  assumes "\<not> sublist ''/generated.photos/'' (d @ ''/generated.photos'')"
    and "\<not> sublist ''/generated.photos/'' (stem @ ''.jpg'')"
    and "\<not> sublist ''.jpg'' (d @ ''/generated.photos_metadata/'' @ stem @ ''.jp'')"
  shows "jsonfile_of (d @ ''/generated.photos/'' @ stem @ ''.jpg'')
           = d @ ''/generated.photos_metadata/'' @ stem @ ''.json''"
proof -
  have b1: "butlast ''/generated.photos/'' = ''/generated.photos''" by simp
  have n1: "''/generated.photos/'' \<noteq> []" by simp
  have a1: "\<not> sublist ''/generated.photos/'' (d @ butlast ''/generated.photos/'')"
    unfolding b1 by (rule assms(1))
  have "str_replace ''/generated.photos/'' ''/generated.photos_metadata/''
          (d @ ''/generated.photos/'' @ (stem @ ''.jpg''))
        = d @ ''/generated.photos_metadata/''
            @ str_replace ''/generated.photos/'' ''/generated.photos_metadata/'' (stem @ ''.jpg'')"
    using n1 a1 by (rule str_replace_first_occurrence)
  also have "str_replace ''/generated.photos/'' ''/generated.photos_metadata/'' (stem @ ''.jpg'')
        = stem @ ''.jpg''"
    using n1 assms(2) by (rule str_replace_no_occurrence)
  finally have 1: "str_replace ''/generated.photos/'' ''/generated.photos_metadata/''
          (d @ ''/generated.photos/'' @ stem @ ''.jpg'')
        = d @ ''/generated.photos_metadata/'' @ stem @ ''.jpg''"
    by (simp only: append_assoc)
  have b2: "butlast ''.jpg'' = ''.jp''" by simp
  have n2: "''.jpg'' \<noteq> []" by simp
  have a2: "\<not> sublist ''.jpg'' ((d @ ''/generated.photos_metadata/'' @ stem) @ butlast ''.jpg'')"
    unfolding b2 using assms(3) by simp
  have "str_replace ''.jpg'' ''.json'' ((d @ ''/generated.photos_metadata/'' @ stem) @ ''.jpg'' @ [])
        = (d @ ''/generated.photos_metadata/'' @ stem) @ ''.json'' @ str_replace ''.jpg'' ''.json'' []"
    using n2 a2 by (rule str_replace_first_occurrence)
  then have 2: "str_replace ''.jpg'' ''.json'' (d @ ''/generated.photos_metadata/'' @ stem @ ''.jpg'')
        = d @ ''/generated.photos_metadata/'' @ stem @ ''.json''"
    by (simp only: append_assoc append_Nil2 str_replace.simps list.distinct if_False)
  show ?thesis unfolding jsonfile_of_def 1 2 ..
qed

subsection \<open>The catalog: rows\<close>

lemma catalog_row_fields:
  "fullpath (catalog_row p) = p"
  "filename (catalog_row p) = snd (snd (rpartition CHR ''/'' p))"
  "faceid (catalog_row p) = str_extract_faceid (filename (catalog_row p))"
  "jsonfile (catalog_row p) = jsonfile_of p"
  by (simp_all add: catalog_row_def Let_def)

lemma create_facedb_nonempty:
  assumes "glob_glob (dir @ ''/*.jpg'') = face_photos" and "face_photos \<noteq> []"
  shows "create_facedb glob_glob dir = Inr (map catalog_row face_photos)"
  using assms by (simp add: create_facedb_def str_accessor_def column_dtype_def)

lemma create_facedb_empty:
  assumes "glob_glob (dir @ ''/*.jpg'') = []"
  shows "create_facedb glob_glob dir = Inl AttributeError"
  using assms by (simp add: create_facedb_def str_accessor_def column_dtype_def)

text \<open>
  Claim C1, as the code has it. When at least one path matches \<open>dir/*.jpg\<close>,
  \<open>create_facedb\<close> returns one row per matching path, in the order of \<open>glob.glob\<close>, and
  the row of a path \<open>p\<close> is \<open>catalog_row p\<close>: \<open>fullpath\<close> is \<open>p\<close>; \<open>filename\<close> is what follows
  the last slash; \<open>faceid\<close> is the group of the leftmost match of \<open>_(\d{7})[_.]\<close> in the
  file name (seven digits after an underscore and before an underscore or a dot), and
  NaN exactly when the file name has no such match; \<open>jsonfile\<close> is \<open>p\<close> with every
  occurrence of \<open>/generated.photos/\<close> replaced by \<open>/generated.photos_metadata/\<close> and then
  every occurrence of \<open>.jpg\<close> replaced by \<open>.json\<close>. For a path
  \<open>d/generated.photos/stem.jpg\<close> in which the directory segment occurs once and \<open>.jpg\<close>
  only as the extension, that is \<open>d/generated.photos_metadata/stem.json\<close>.
\<close>

theorem create_facedb_catalog:
  assumes "glob_glob (dir @ ''/*.jpg'') = face_photos" and "face_photos \<noteq> []"
  shows "(\<exists>db. create_facedb glob_glob dir = Inr db
            \<and> length db = length face_photos
            \<and> (\<forall>i<length face_photos. db ! i = catalog_row (face_photos ! i)))
       \<and> (\<forall>p. fullpath (catalog_row p) = p
              \<and> (\<forall>d name. p = d @ ''/'' @ name \<and> CHR ''/'' \<notin> set name
                    \<longrightarrow> filename (catalog_row p) = name)
              \<and> (\<forall>digits. faceid (catalog_row p) = Some digits \<longleftrightarrow>
                    (\<exists>k. id_at (filename (catalog_row p)) k digits
                       \<and> (\<forall>j<k. \<forall>d'. \<not> id_at (filename (catalog_row p)) j d')))
              \<and> (faceid (catalog_row p) = None
                    \<longleftrightarrow> (\<forall>k d'. \<not> id_at (filename (catalog_row p)) k d'))
              \<and> jsonfile (catalog_row p)
                  = str_replace ''.jpg'' ''.json''
                      (str_replace ''/generated.photos/'' ''/generated.photos_metadata/'' p)
              \<and> (\<forall>d stem. p = d @ ''/generated.photos/'' @ stem @ ''.jpg''
                    \<and> \<not> sublist ''/generated.photos/'' (d @ ''/generated.photos'')
                    \<and> \<not> sublist ''/generated.photos/'' (stem @ ''.jpg'')
                    \<and> \<not> sublist ''.jpg'' (d @ ''/generated.photos_metadata/'' @ stem @ ''.jp'')
                    \<longrightarrow> jsonfile (catalog_row p)
                        = d @ ''/generated.photos_metadata/'' @ stem @ ''.json''))"
proof (intro conjI allI)
  let ?db = "map catalog_row face_photos"
  have "create_facedb glob_glob dir = Inr ?db"
    using assms by (rule create_facedb_nonempty)
  moreover have "length ?db = length face_photos" by simp
  moreover have "\<forall>i<length face_photos. ?db ! i = catalog_row (face_photos ! i)" by simp
  ultimately show "\<exists>db. create_facedb glob_glob dir = Inr db
            \<and> length db = length face_photos
            \<and> (\<forall>i<length face_photos. db ! i = catalog_row (face_photos ! i))"
    by blast
next
  fix p show "fullpath (catalog_row p) = p" by (rule catalog_row_fields(1))
next
  fix p d name
  show "p = d @ ''/'' @ name \<and> CHR ''/'' \<notin> set name \<longrightarrow> filename (catalog_row p) = name"
  proof
    assume h: "p = d @ ''/'' @ name \<and> CHR ''/'' \<notin> set name"
    then have "rpartition CHR ''/'' p = (d, ''/'', name)"
      using rpartition_last_slash [of "CHR ''/''" name d] by simp
    then show "filename (catalog_row p) = name" by (simp add: catalog_row_fields(2))
  qed
next
  fix p digits
  show "faceid (catalog_row p) = Some digits \<longleftrightarrow>
          (\<exists>k. id_at (filename (catalog_row p)) k digits
             \<and> (\<forall>j<k. \<forall>d'. \<not> id_at (filename (catalog_row p)) j d'))"
    unfolding catalog_row_fields(3) by (rule str_extract_faceid_Some)
next
  fix p
  show "faceid (catalog_row p) = None \<longleftrightarrow> (\<forall>k d'. \<not> id_at (filename (catalog_row p)) k d')"
    unfolding catalog_row_fields(3) by (rule str_extract_faceid_None)
next
  fix p
  show "jsonfile (catalog_row p)
          = str_replace ''.jpg'' ''.json''
              (str_replace ''/generated.photos/'' ''/generated.photos_metadata/'' p)"
    by (simp only: catalog_row_fields(4) jsonfile_of_def)
next
  fix p d stem
  show "p = d @ ''/generated.photos/'' @ stem @ ''.jpg''
          \<and> \<not> sublist ''/generated.photos/'' (d @ ''/generated.photos'')
          \<and> \<not> sublist ''/generated.photos/'' (stem @ ''.jpg'')
          \<and> \<not> sublist ''.jpg'' (d @ ''/generated.photos_metadata/'' @ stem @ ''.jp'')
          \<longrightarrow> jsonfile (catalog_row p) = d @ ''/generated.photos_metadata/'' @ stem @ ''.json''"
  proof
    assume h: "p = d @ ''/generated.photos/'' @ stem @ ''.jpg''
          \<and> \<not> sublist ''/generated.photos/'' (d @ ''/generated.photos'')
          \<and> \<not> sublist ''/generated.photos/'' (stem @ ''.jpg'')
          \<and> \<not> sublist ''.jpg'' (d @ ''/generated.photos_metadata/'' @ stem @ ''.jp'')"
    then have "\<not> sublist ''/generated.photos/'' (d @ ''/generated.photos'')"
      and "\<not> sublist ''/generated.photos/'' (stem @ ''.jpg'')"
      and "\<not> sublist ''.jpg'' (d @ ''/generated.photos_metadata/'' @ stem @ ''.jp'')"
      by blast+
    then have "jsonfile_of (d @ ''/generated.photos/'' @ stem @ ''.jpg'')
         = d @ ''/generated.photos_metadata/'' @ stem @ ''.json''"
      by (rule jsonfile_of_plain)
    with h show "jsonfile (catalog_row p) = d @ ''/generated.photos_metadata/'' @ stem @ ''.json''"
      by (simp only: catalog_row_fields(4))
  qed
qed

text \<open>
  The scenario of three files with seven-digit identifiers in the default directory.
\<close>

theorem create_facedb_catalog_three_files:
  "(\<lambda>pattern. if pattern = ''/srv/data/faces/generated.photos/*.jpg''
       then [''/srv/data/faces/generated.photos/a_0000001_b.jpg'',
             ''/srv/data/faces/generated.photos/a_0000002_b.jpg'',
             ''/srv/data/faces/generated.photos/c_0000003.jpg'']
       else []) (default_dir @ ''/*.jpg'')
     = [''/srv/data/faces/generated.photos/a_0000001_b.jpg'',
        ''/srv/data/faces/generated.photos/a_0000002_b.jpg'',
        ''/srv/data/faces/generated.photos/c_0000003.jpg'']
   \<and> create_facedb
        (\<lambda>pattern. if pattern = ''/srv/data/faces/generated.photos/*.jpg''
           then [''/srv/data/faces/generated.photos/a_0000001_b.jpg'',
                 ''/srv/data/faces/generated.photos/a_0000002_b.jpg'',
                 ''/srv/data/faces/generated.photos/c_0000003.jpg'']
           else []) default_dir
     = Inr [\<lparr>fullpath = ''/srv/data/faces/generated.photos/a_0000001_b.jpg'',
              filename = ''a_0000001_b.jpg'', faceid = Some ''0000001'',
              jsonfile = ''/srv/data/faces/generated.photos_metadata/a_0000001_b.json''\<rparr>,
            \<lparr>fullpath = ''/srv/data/faces/generated.photos/a_0000002_b.jpg'',
              filename = ''a_0000002_b.jpg'', faceid = Some ''0000002'',
              jsonfile = ''/srv/data/faces/generated.photos_metadata/a_0000002_b.json''\<rparr>,
            \<lparr>fullpath = ''/srv/data/faces/generated.photos/c_0000003.jpg'',
              filename = ''c_0000003.jpg'', faceid = Some ''0000003'',
              jsonfile = ''/srv/data/faces/generated.photos_metadata/c_0000003.json''\<rparr>]
   \<and> (\<exists>db. create_facedb
          (\<lambda>pattern. if pattern = ''/srv/data/faces/generated.photos/*.jpg''
             then [''/srv/data/faces/generated.photos/a_0000001_b.jpg'',
                   ''/srv/data/faces/generated.photos/a_0000002_b.jpg'',
                   ''/srv/data/faces/generated.photos/c_0000003.jpg'']
             else []) default_dir = Inr db
        \<and> length db = 3)
   \<and> filename (catalog_row ''/srv/data/faces/generated.photos/a_0000001_b.jpg'')
       = ''a_0000001_b.jpg''
   \<and> jsonfile (catalog_row ''/srv/data/faces/generated.photos/a_0000001_b.jpg'')
       = ''/srv/data/faces/generated.photos_metadata/a_0000001_b.json''"
proof -
  let ?p1 = "''/srv/data/faces/generated.photos/a_0000001_b.jpg''"
  let ?p2 = "''/srv/data/faces/generated.photos/a_0000002_b.jpg''"
  let ?p3 = "''/srv/data/faces/generated.photos/c_0000003.jpg''"
  let ?glob = "\<lambda>pattern. if pattern = ''/srv/data/faces/generated.photos/*.jpg''
                 then [?p1, ?p2, ?p3] else []"
  have h1: "?glob (default_dir @ ''/*.jpg'') = [?p1, ?p2, ?p3]"
    by (simp add: default_dir_def)
  have h2: "[?p1, ?p2, ?p3] \<noteq> []" by simp
  have ev: "create_facedb ?glob default_dir
     = Inr [\<lparr>fullpath = ?p1, filename = ''a_0000001_b.jpg'', faceid = Some ''0000001'',
              jsonfile = ''/srv/data/faces/generated.photos_metadata/a_0000001_b.json''\<rparr>,
            \<lparr>fullpath = ?p2, filename = ''a_0000002_b.jpg'', faceid = Some ''0000002'',
              jsonfile = ''/srv/data/faces/generated.photos_metadata/a_0000002_b.json''\<rparr>,
            \<lparr>fullpath = ?p3, filename = ''c_0000003.jpg'', faceid = Some ''0000003'',
              jsonfile = ''/srv/data/faces/generated.photos_metadata/c_0000003.json''\<rparr>]"
    by code_simp
  note inst = create_facedb_catalog [of ?glob default_dir "[?p1, ?p2, ?p3]", OF h1 h2]
  from inst [THEN conjunct1]
  obtain db where db: "create_facedb ?glob default_dir = Inr db
      \<and> length db = length [?p1, ?p2, ?p3]
      \<and> (\<forall>i<length [?p1, ?p2, ?p3]. db ! i = catalog_row ([?p1, ?p2, ?p3] ! i))" ..
  then have "create_facedb ?glob default_dir = Inr db \<and> length db = 3" by simp
  then have ex: "\<exists>db. create_facedb ?glob default_dir = Inr db \<and> length db = 3" ..
  note row = inst [THEN conjunct2, THEN spec, of ?p1]
  have n: "?p1 = ''/srv/data/faces/generated.photos'' @ ''/'' @ ''a_0000001_b.jpg''
        \<and> CHR ''/'' \<notin> set ''a_0000001_b.jpg''"
    by simp
  have fn: "filename (catalog_row ?p1) = ''a_0000001_b.jpg''"
    using row [THEN conjunct2, THEN conjunct1, rule_format, OF n] .
  have s1: "\<not> sublist ''/generated.photos/'' (''/srv/data/faces'' @ ''/generated.photos'')"
    by code_simp
  have s2: "\<not> sublist ''/generated.photos/'' (''a_0000001_b'' @ ''.jpg'')"
    by code_simp
  have s3: "\<not> sublist ''.jpg''
      (''/srv/data/faces'' @ ''/generated.photos_metadata/'' @ ''a_0000001_b'' @ ''.jp'')"
    by code_simp
  have j: "?p1 = ''/srv/data/faces'' @ ''/generated.photos/'' @ ''a_0000001_b'' @ ''.jpg''
      \<and> \<not> sublist ''/generated.photos/'' (''/srv/data/faces'' @ ''/generated.photos'')
      \<and> \<not> sublist ''/generated.photos/'' (''a_0000001_b'' @ ''.jpg'')
      \<and> \<not> sublist ''.jpg''
           (''/srv/data/faces'' @ ''/generated.photos_metadata/'' @ ''a_0000001_b'' @ ''.jp'')"
    using s1 s2 s3 by simp
  have "jsonfile (catalog_row ?p1)
      = ''/srv/data/faces'' @ ''/generated.photos_metadata/'' @ ''a_0000001_b'' @ ''.json''"
    using row [THEN conjunct2, THEN conjunct2, THEN conjunct2, THEN conjunct2, THEN conjunct2,
      rule_format, OF j] .
  then have jf: "jsonfile (catalog_row ?p1)
      = ''/srv/data/faces/generated.photos_metadata/a_0000001_b.json''"
    by simp
  show ?thesis
    by (intro conjI) (rule h1 ev ex fn jf)+
qed

text \<open>
  A file that matches \<open>*.jpg\<close>, has no seven-digit identifier and has \<open>.jpg\<close> inside its
  name: its \<open>faceid\<close> is NaN, not a seven-digit string, and its \<open>jsonfile\<close> is not the path
  with only the extension replaced.
\<close>

theorem create_facedb_file_without_id:
  "create_facedb
     (\<lambda>pattern. if pattern = ''/srv/data/faces/generated.photos/*.jpg''
        then [''/srv/data/faces/generated.photos/a.jpg_b.jpg''] else [])
     ''/srv/data/faces/generated.photos''
   = Inr [\<lparr>fullpath = ''/srv/data/faces/generated.photos/a.jpg_b.jpg'',
            filename = ''a.jpg_b.jpg'', faceid = None,
            jsonfile = ''/srv/data/faces/generated.photos_metadata/a.json_b.json''\<rparr>]
   \<and> ''/srv/data/faces/generated.photos_metadata/a.json_b.json''
       \<noteq> ''/srv/data/faces/generated.photos_metadata/a.jpg_b.json''"
  by code_simp

text \<open>
  Claim C8 says that a directory without a matching file gives an empty catalog and no
  error. The code raises instead: the \<open>fullpath\<close> column assigned from the empty list is
  a \<open>float64\<close> column, and \<open>db["fullpath"].str\<close> raises AttributeError.
\<close>

theorem create_facedb_no_match_raises:
  assumes "glob_glob (dir @ ''/*.jpg'') = []"
  shows "create_facedb glob_glob dir = Inl AttributeError"
  using assms by (rule create_facedb_empty)

text \<open>A file system whose only \<open>.jpg\<close> file is in another directory.\<close>

theorem create_facedb_no_match_raises_default_dir:
  "(\<lambda>pattern. if pattern = ''/tmp/*.jpg'' then [''/tmp/x_0000001_y.jpg''] else [])
       (default_dir @ ''/*.jpg'') = []
   \<and> create_facedb
        (\<lambda>pattern. if pattern = ''/tmp/*.jpg'' then [''/tmp/x_0000001_y.jpg''] else [])
        default_dir = Inl AttributeError"
proof -
  let ?glob = "\<lambda>pattern. if pattern = ''/tmp/*.jpg'' then [''/tmp/x_0000001_y.jpg''] else []"
  have h: "?glob (default_dir @ ''/*.jpg'') = []" by (simp add: default_dir_def)
  from create_facedb_no_match_raises [of ?glob default_dir, OF h] h
  show ?thesis by (intro conjI)
qed

subsection \<open>\<open>read_metadata\<close> and the missing import\<close>

text \<open>
  Claim C10. The notebook binds no name \<open>pprint\<close>, so a call of \<open>read_metadata\<close> whose
  metadata file opens and parses raises NameError at \<open>pprint.pformat\<close>; and since every
  other path through the function raises too (KeyError, FileNotFoundError,
  JSONDecodeError), no call returns a value.
\<close>

theorem read_metadata_raises_NameError:
  "''pprint'' \<notin> set notebook_globals
   \<and> (\<forall>r data. lookup_label facedb ident = Some r \<and> files (jsonfile r) = Content data
         \<longrightarrow> read_metadata pformat files facedb ident = Inl NameError)
   \<and> isl (read_metadata pformat files facedb ident)"
proof -
  have g: "''pprint'' \<notin> set notebook_globals"
    by (simp add: notebook_globals_def)
  have 1: "\<forall>r data. lookup_label facedb ident = Some r \<and> files (jsonfile r) = Content data
         \<longrightarrow> read_metadata pformat files facedb ident = Inl NameError"
    using g by (simp add: read_metadata_def)
  have 2: "isl (read_metadata pformat files facedb ident)"
    using g by (simp add: read_metadata_def split: option.splits stored.splits)
  from g 1 2 show ?thesis by blast
qed

text \<open>A catalog of one row whose metadata file holds a \<open>faceAttributes\<close> object.\<close>

theorem read_metadata_raises_NameError_on_parsed_file:
  "lookup_label [catalog_row ''/srv/data/faces/generated.photos/a_0000001_b.jpg''] 0
     = Some (catalog_row ''/srv/data/faces/generated.photos/a_0000001_b.jpg'')
   \<and> (\<lambda>path. if path = ''/srv/data/faces/generated.photos_metadata/a_0000001_b.json''
                then Content (JObject [(''faceAttributes'', JObject [(''age'', JNumber ''31'')])])
                else Missing)
        (jsonfile (catalog_row ''/srv/data/faces/generated.photos/a_0000001_b.jpg''))
     = Content (JObject [(''faceAttributes'', JObject [(''age'', JNumber ''31'')])])
   \<and> read_metadata (\<lambda>attributes. ''{}'')
        (\<lambda>path. if path = ''/srv/data/faces/generated.photos_metadata/a_0000001_b.json''
                then Content (JObject [(''faceAttributes'', JObject [(''age'', JNumber ''31'')])])
                else Missing)
        [catalog_row ''/srv/data/faces/generated.photos/a_0000001_b.jpg''] 0
     = Inl NameError"
proof -
  let ?r = "catalog_row ''/srv/data/faces/generated.photos/a_0000001_b.jpg''"
  let ?data = "JObject [(''faceAttributes'', JObject [(''age'', JNumber ''31'')])]"
  let ?files = "\<lambda>path. if path = ''/srv/data/faces/generated.photos_metadata/a_0000001_b.json''
                then Content ?data else Missing"
  have l: "lookup_label [?r] 0 = Some ?r" by (simp add: lookup_label_def)
  have j: "jsonfile ?r = ''/srv/data/faces/generated.photos_metadata/a_0000001_b.json''"
    by code_simp
  have f: "?files (jsonfile ?r) = Content ?data" unfolding j by simp
  from read_metadata_raises_NameError [of "[?r]" 0 ?files "\<lambda>attributes. ''{}''"] l f
  have "read_metadata (\<lambda>attributes. ''{}'') ?files [?r] 0 = Inl NameError" by blast
  with l f show ?thesis by (intro conjI)
qed

end
